theory Spec2Isabelle
  imports Complex_Main "HOL-Library.AList"
begin

section \<open>Python values used by app.py\<close>

text \<open>
  A Python \<open>str\<close> is a sequence of Unicode code points, and \<open>len\<close> counts code points;
  a string is therefore a list of code points. Python floats are modelled as reals:
  rounding is not part of the model.
\<close>

type_synonym str = "nat list"

definition py_str :: "string \<Rightarrow> str" where
  "py_str s = map of_char s"

datatype error =
    ZeroDivisionError
  | IndexError
  | DownloadError
  | TranscriptionError
  | TesseractError
  | StreamlitAPIException

text \<open>\<open>str.isspace\<close> for one code point: the white space characters of Unicode.\<close>

definition isspace :: "nat \<Rightarrow> bool" where
  "isspace c \<longleftrightarrow>
     (9 \<le> c \<and> c \<le> 13) \<or> (28 \<le> c \<and> c \<le> 32) \<or> c = 133 \<or> c = 160 \<or> c = 5760 \<or>
     (8192 \<le> c \<and> c \<le> 8202) \<or> c = 8232 \<or> c = 8233 \<or> c = 8239 \<or> c = 8287 \<or> c = 12288"

text \<open>\<open>s.strip()\<close>: leading and trailing white space removed.\<close>

definition strip :: "str \<Rightarrow> str" where
  "strip s = rev (dropWhile isspace (rev (dropWhile isspace s)))"

text \<open>\<open>int(x)\<close> on a float truncates toward zero.\<close>

definition py_int :: "real \<Rightarrow> int" where
  "py_int x = (if 0 \<le> x then \<lfloor>x\<rfloor> else \<lceil>x\<rceil>)"

text \<open>\<open>str(n)\<close> for an integer: its decimal digits, with a minus sign when negative.\<close>

fun digits :: "nat \<Rightarrow> str" where
  "digits n = (if n < 10 then [48 + n] else digits (n div 10) @ [48 + n mod 10])"

declare digits.simps [simp del]

definition str_int :: "int \<Rightarrow> str" where
  "str_int i = (if i < 0 then 45 # digits (nat (- i)) else digits (nat i))"

text \<open>
  \<open>s.split(sep)\<close> for a separator of one character: the pieces between the separators,
  at least one piece.
\<close>

fun str_split :: "nat \<Rightarrow> str \<Rightarrow> str list" where
  "str_split sep [] = [[]]"
| "str_split sep (c # cs) =
     (if c = sep then [] # str_split sep cs
      else (case str_split sep cs of [] \<Rightarrow> [[c]] | p # ps \<Rightarrow> (c # p) # ps))"

text \<open>\<open>xs[0]\<close>, which raises on an empty list.\<close>

definition first :: "'a list \<Rightarrow> error + 'a" where
  "first xs = (case xs of [] \<Rightarrow> Inl IndexError | x # _ \<Rightarrow> Inr x)"

text \<open>
  \<open>Levenshtein.distance\<close>: the least number of insertions, deletions and substitutions
  of one character that turn one string into the other.
\<close>

fun levenshtein :: "str \<Rightarrow> str \<Rightarrow> nat" where
  "levenshtein [] ys = length ys"
| "levenshtein xs [] = length xs"
| "levenshtein (x # xs) (y # ys) =
     min (min (levenshtein xs (y # ys) + 1) (levenshtein (x # xs) ys + 1))
         (levenshtein xs ys + (if x = y then 0 else 1))"

section \<open>Telop detection (process_video, lines 59 to 108)\<close>

text \<open>
  A frame is its rows of pixels; \<open>frame.shape\<close> gives the number of rows as the height.
  The region handed to the OCR engine is \<open>frame[height // 2:, :]\<close>.
\<close>

type_synonym 'p frame = "'p list list"

definition roi :: "'p frame \<Rightarrow> 'p frame" where
  "roi frame = drop (length frame div 2) frame"

text \<open>
  The dictionary returned by \<open>pytesseract.image_to_data\<close>: parallel arrays under the
  keys \<open>text\<close> and \<open>conf\<close>. The code reads a confidence as \<open>int(ocr_data['conf'][i])\<close>;
  the model holds that integer.
\<close>

record ocr_data =
  ocr_text :: "str list"
  ocr_conf :: "int list"

text \<open>
  The loop over \<open>range(len(ocr_data['text']))\<close>. Reading \<open>ocr_data['conf'][i]\<close> past the
  end of the confidences raises.
\<close>

fun parts_loop :: "ocr_data \<Rightarrow> nat list \<Rightarrow> str list \<Rightarrow> error + str list" where
  "parts_loop d [] current_text_parts = Inr current_text_parts"
| "parts_loop d (i # is) current_text_parts =
     (if length (ocr_conf d) \<le> i then Inl IndexError
      else if ocr_conf d ! i > 60 then
        (let text = strip (ocr_text d ! i)
         in if text \<noteq> [] then parts_loop d is (current_text_parts @ [text])
            else parts_loop d is current_text_parts)
      else parts_loop d is current_text_parts)"

definition current_text_parts :: "ocr_data \<Rightarrow> error + str list" where
  "current_text_parts d = parts_loop d [0..<length (ocr_text d)] []"

definition current_text_block :: "ocr_data \<Rightarrow> error + str" where
  "current_text_block d =
     (case current_text_parts d of Inl e \<Rightarrow> Inl e | Inr parts \<Rightarrow> Inr (concat parts))"

text \<open>
  The path taken through the novelty decision of lines 87 to 96, for the values of
  \<open>current_text_block\<close> and \<open>last_text_block\<close>. \<open>Divide d m\<close> is the
  path on which \<open>Levenshtein.distance(...) / max_len\<close> is computed, with the distance
  \<open>d\<close> and the divisor \<open>m\<close>; \<open>ZeroMaxLen\<close> is the path on which the guard
  \<open>max_len > 0\<close> is false.
\<close>

datatype path = EmptyCurrent | EmptyLast | Divide nat nat | ZeroMaxLen

definition novelty_path :: "str \<Rightarrow> str \<Rightarrow> path" where
  "novelty_path current previous =
     (if current \<noteq> [] then
        (if previous = [] then EmptyLast
         else (let max_len = max (length current) (length previous)
               in if max_len > 0
                  then Divide (levenshtein current previous) max_len
                  else ZeroMaxLen))
      else EmptyCurrent)"

definition similarity :: "nat \<Rightarrow> nat \<Rightarrow> real" where
  "similarity d max_len = 1 - real d / real max_len"

definition is_new_subtitle :: "str \<Rightarrow> str \<Rightarrow> bool" where
  "is_new_subtitle current previous =
     (case novelty_path current previous of
        EmptyCurrent \<Rightarrow> False
      | EmptyLast \<Rightarrow> True
      | Divide d max_len \<Rightarrow> similarity d max_len < 0.9
      | ZeroMaxLen \<Rightarrow> False)"

text \<open>An entry of \<open>telop_screenshots\<close>, and the state the frame loop carries.\<close>

record telop_item =
  t_timestamp :: real
  t_image_str :: str
  t_text :: str

record detector =
  telop_screenshots :: "telop_item list"
  last_text_block :: str

definition detect :: "real \<Rightarrow> str \<Rightarrow> str \<Rightarrow> detector \<Rightarrow> detector" where
  "detect timestamp img_str current st =
     (if is_new_subtitle current (last_text_block st)
      then st\<lparr>telop_screenshots := telop_screenshots st @
                 [\<lparr>t_timestamp = timestamp, t_image_str = img_str, t_text = current\<rparr>],
              last_text_block := current\<rparr>
      else st)"

text \<open>
  The body of the loop for a sampled frame (lines 73 to 102). The OCR engine and the
  JPEG encoder are collaborators; an exception of the engine is not caught in the loop.
\<close>

definition sample_frame ::
  "('p frame \<Rightarrow> error + ocr_data) \<Rightarrow> ('p frame \<Rightarrow> str) \<Rightarrow> real \<Rightarrow> 'p frame \<Rightarrow> detector
     \<Rightarrow> error + detector" where
  "sample_frame ocr encode timestamp frame st =
     (case ocr (roi frame) of
        Inl e \<Rightarrow> Inl e
      | Inr d \<Rightarrow>
          (case current_text_block d of
             Inl e \<Rightarrow> Inl e
           | Inr current \<Rightarrow> Inr (detect timestamp (encode frame) current st)))"

text \<open>
  The progress report of lines 104 to 106, made after each sampled frame.
  \<open>progress_bar.progress\<close> with an integer raises unless the integer is between 0 and 100.
\<close>

definition progress_value :: "int \<Rightarrow> nat \<Rightarrow> int" where
  "progress_value total_frames frame_count =
     (if total_frames > 0
      then 65 + py_int (30 * (real frame_count / real_of_int total_frames)) else 65)"

definition progress :: "int \<Rightarrow> error + unit" where
  "progress v = (if 0 \<le> v \<and> v \<le> 100 then Inr () else Inl StreamlitAPIException)"

text \<open>
  The \<open>while\<close> loop of lines 68 to 107 over the frames that \<open>cap.read()\<close> yields, until the
  source is exhausted. \<open>frame_count % math.ceil(fps)\<close> raises when \<open>math.ceil(fps)\<close> is 0.
\<close>

fun telop_loop ::
  "('p frame \<Rightarrow> error + ocr_data) \<Rightarrow> ('p frame \<Rightarrow> str) \<Rightarrow> real \<Rightarrow> int \<Rightarrow> 'p frame list \<Rightarrow> nat
     \<Rightarrow> detector \<Rightarrow> error + detector" where
  "telop_loop ocr encode fps total_frames [] frame_count st = Inr st"
| "telop_loop ocr encode fps total_frames (frame # rest) frame_count st =
     (if \<lceil>fps\<rceil> = 0 then Inl ZeroDivisionError
      else if int frame_count mod \<lceil>fps\<rceil> = 0 then
        (case sample_frame ocr encode (real frame_count / fps) frame st of
           Inl e \<Rightarrow> Inl e
         | Inr st' \<Rightarrow>
             (case progress (progress_value total_frames frame_count) of
                Inl e \<Rightarrow> Inl e
              | Inr u \<Rightarrow>
                  telop_loop ocr encode fps total_frames rest (frame_count + 1) st'))
      else telop_loop ocr encode fps total_frames rest (frame_count + 1) st)"

definition initial_detector :: detector where
  "initial_detector = \<lparr>telop_screenshots = [], last_text_block = []\<rparr>"

section \<open>The pipeline (process_video, lines 31 to 113)\<close>

text \<open>A segment of the transcription result, and an entry of \<open>voice_data\<close>.\<close>

record segment =
  seg_start :: real
  seg_text :: str

record voice_item =
  v_timestamp :: real
  v_text :: str

text \<open>
  The collaborators of the pipeline. The file system is the set of the paths that exist.
  \<open>download\<close> stands for lines 50 to 52 (\<open>extract_info\<close> with \<open>download=True\<close>, then
  \<open>prepare_filename\<close>): it raises, or yields the path of the media file, and leaves a
  file system behind. Transcription and decoding read the file and leave the file system
  as it is. \<open>video_capture\<close> gives the frame rate, the frame count that the container
  reports (\<open>CAP_PROP_FRAME_COUNT\<close>) and the frames that \<open>cap.read()\<close> yields until it
  is exhausted.
\<close>

record 'p collaborators =
  download :: "str \<Rightarrow> str set \<Rightarrow> (error + str) \<times> str set"
  transcribe :: "str \<Rightarrow> error + segment list"
  video_capture :: "str \<Rightarrow> real \<times> real \<times> 'p frame list"
  image_to_data :: "'p frame \<Rightarrow> error + ocr_data"
  imencode :: "'p frame \<Rightarrow> str"

text \<open>\<open>os.path.exists\<close>: the empty path never exists.\<close>

definition path_exists :: "str set \<Rightarrow> str \<Rightarrow> bool" where
  "path_exists files p \<longleftrightarrow> p \<noteq> [] \<and> p \<in> files"

definition voice_data :: "segment list \<Rightarrow> voice_item list" where
  "voice_data segments =
     map (\<lambda>segment. \<lparr>v_timestamp = seg_start segment, v_text = strip (seg_text segment)\<rparr>)
       segments"

text \<open>
  The body of the \<open>try\<close> statement: the value of \<open>video_path\<close> when the body is left
  (\<open>None\<close> until the download has returned), the result or the exception, and the file
  system. The progress reports outside the frame loop (lines 32, 41, 54, 59 and 112) pass
  the constants 0, 5, 25, 65 and 100, which are accepted.
\<close>

definition try_body ::
  "'p collaborators \<Rightarrow> str \<Rightarrow> str set
     \<Rightarrow> str option \<times> (error + voice_item list \<times> telop_item list) \<times> str set" where
  "try_body c url files =
     (case download c url files of
        (Inl e, files') \<Rightarrow> (None, Inl e, files')
      | (Inr video_path, files') \<Rightarrow>
          (Some video_path,
           (case transcribe c video_path of
              Inl e \<Rightarrow> Inl e
            | Inr segments \<Rightarrow>
                (case video_capture c video_path of
                   (fps, frame_count_prop, frames) \<Rightarrow>
                     (case telop_loop (image_to_data c) (imencode c) fps
                             (py_int frame_count_prop) frames 0 initial_detector of
                        Inl e \<Rightarrow> Inl e
                      | Inr st \<Rightarrow> Inr (voice_data segments, telop_screenshots st)))),
           files'))"

text \<open>
  The \<open>finally\<close> clause:
  \<open>if video_path and os.path.exists(video_path): os.remove(video_path)\<close>.
\<close>

definition finally_clause :: "str option \<Rightarrow> str set \<Rightarrow> str set" where
  "finally_clause video_path files =
     (case video_path of
        None \<Rightarrow> files
      | Some p \<Rightarrow> if p \<noteq> [] \<and> path_exists files p then files - {p} else files)"

definition process_video ::
  "'p collaborators \<Rightarrow> str \<Rightarrow> str set
     \<Rightarrow> (error + voice_item list \<times> telop_item list) \<times> str set" where
  "process_video c url files =
     (case try_body c url files of
        (video_path, r, files') \<Rightarrow> (r, finally_clause video_path files'))"

section \<open>Event fusion and rendering (lines 131 to 158)\<close>

text \<open>
  An entry of \<open>all_events\<close>: the dictionary with \<open>type\<close> \<open>voice\<close> (timestamp, data) or
  with \<open>type\<close> \<open>telop\<close> (timestamp, data, text).
\<close>

datatype event = Voice real str | Telop real str str

fun event_timestamp :: "event \<Rightarrow> real" where
  "event_timestamp (Voice t d) = t"
| "event_timestamp (Telop t d x) = t"

definition voice_event :: "voice_item \<Rightarrow> event" where
  "voice_event item = Voice (v_timestamp item) (v_text item)"

definition telop_event :: "telop_item \<Rightarrow> event" where
  "telop_event item = Telop (t_timestamp item) (t_image_str item) (t_text item)"

definition all_events :: "voice_item list \<Rightarrow> telop_item list \<Rightarrow> event list" where
  "all_events voice telops = map voice_event voice @ map telop_event telops"

text \<open>A value of \<open>grouped_events\<close>: the two lists under the keys \<open>voice\<close> and \<open>telop\<close>.\<close>

record bucket =
  b_voice :: "event list"
  b_telop :: "event list"

text \<open>
  \<open>grouped_events\<close> is a dictionary, kept as an association list in insertion order.
  One turn of the loop of lines 141 to 149:
\<close>

definition group_event :: "(int \<times> bucket) list \<Rightarrow> event \<Rightarrow> (int \<times> bucket) list" where
  "group_event g event =
     (let time_key = py_int (event_timestamp event);
          g' = (if time_key \<notin> fst ` set g
                then g @ [(time_key, \<lparr>b_voice = [], b_telop = []\<rparr>)] else g)
      in case event of
           Voice t d \<Rightarrow> AList.map_entry time_key (\<lambda>b. b\<lparr>b_voice := b_voice b @ [event]\<rparr>) g'
         | Telop t d x \<Rightarrow> AList.map_entry time_key (\<lambda>b. b\<lparr>b_telop := b_telop b @ [event]\<rparr>) g')"

definition grouped_events :: "event list \<Rightarrow> (int \<times> bucket) list" where
  "grouped_events events = foldl group_event [] events"

definition sorted_timestamps :: "(int \<times> bucket) list \<Rightarrow> int list" where
  "sorted_timestamps g = sort (map fst g)"

text \<open>\<open>f"{youtube_url.split('&')[0]}&t={ts}s"\<close>; 38 is the ampersand.\<close>

definition jump_url :: "str \<Rightarrow> int \<Rightarrow> error + str" where
  "jump_url youtube_url ts =
     (case first (str_split 38 youtube_url) of
        Inl e \<Rightarrow> Inl e
      | Inr base \<Rightarrow> Inr (base @ py_str ''&t='' @ str_int ts @ py_str ''s''))"

text \<open>
  The base URL in the words of the specification: the original URL with everything from
  the first ampersand onward removed.
\<close>

definition base_url_spec :: "str \<Rightarrow> str" where
  "base_url_spec url = takeWhile (\<lambda>c. c \<noteq> 38) url"

text \<open>
  The frame sampler in the words of the specification: the frames whose index is a
  multiple of \<open>ceil(fps)\<close>, each with the timestamp \<open>frame_index / fps\<close>.
\<close>

definition sampler_spec :: "real \<Rightarrow> 'p frame list \<Rightarrow> (real \<times> 'p frame) list" where
  "sampler_spec fps frames =
     map (\<lambda>i. (real i / fps, frames ! i))
       (filter (\<lambda>i. \<lceil>fps\<rceil> dvd int i) [0..<length frames])"

text \<open>Telop detection run over a given sequence of samples, stopping at an exception.\<close>

fun detect_samples ::
  "('p frame \<Rightarrow> error + ocr_data) \<Rightarrow> ('p frame \<Rightarrow> str) \<Rightarrow> (real \<times> 'p frame) list
     \<Rightarrow> detector \<Rightarrow> error + detector" where
  "detect_samples ocr encode [] st = Inr st"
| "detect_samples ocr encode ((timestamp, frame) # rest) st =
     (case sample_frame ocr encode timestamp frame st of
        Inl e \<Rightarrow> Inl e
      | Inr st' \<Rightarrow> detect_samples ocr encode rest st')"

text \<open>
  For stating what a bucket holds: the key that line 142 computes for an event, and the
  test of line 146.
\<close>

definition time_key :: "event \<Rightarrow> int" where
  "time_key event = py_int (event_timestamp event)"

fun is_voice :: "event \<Rightarrow> bool" where
  "is_voice (Voice t d) = True"
| "is_voice (Telop t d x) = False"

definition add_to :: "event \<Rightarrow> bucket \<Rightarrow> bucket" where
  "add_to e b =
     (if is_voice e then b\<lparr>b_voice := b_voice b @ [e]\<rparr> else b\<lparr>b_telop := b_telop b @ [e]\<rparr>)"

definition bucket_of :: "event list \<Rightarrow> int \<Rightarrow> bucket" where
  "bucket_of events k =
     \<lparr>b_voice = filter (\<lambda>e. is_voice e \<and> time_key e = k) events,
      b_telop = filter (\<lambda>e. \<not> is_voice e \<and> time_key e = k) events\<rparr>"

text \<open>
  An example run: two frames at 1 frame per second, and an OCR engine that raises on the
  first frame and reads \<open>A\<close> on the second.
\<close>

definition failing_ocr_run :: "nat collaborators" where
  "failing_ocr_run =
     \<lparr>download = \<lambda>u fs. (Inr (py_str ''temp_video.mp4''), insert (py_str ''temp_video.mp4'') fs),
      transcribe = \<lambda>p. Inr [],
      video_capture = \<lambda>p. (1, 2, [[[0]], [[1]]]),
      image_to_data = \<lambda>r. if r = [[0]] then Inl TesseractError
                          else Inr \<lparr>ocr_text = [py_str ''A''], ocr_conf = [90]\<rparr>,
      imencode = \<lambda>f. [7]\<rparr>"

section \<open>Properties of telop detection\<close>

lemma parts_loop_eq:
  "\<forall>i\<in>set is. i < length (ocr_conf d) \<Longrightarrow>
   parts_loop d is acc =
     Inr (acc @ filter (\<lambda>t. t \<noteq> [])
                  (map (\<lambda>i. strip (ocr_text d ! i)) (filter (\<lambda>i. ocr_conf d ! i > 60) is)))"
  by (induction "is" arbitrary: acc) (auto simp: Let_def)

lemma concat_filter_nonempty: "concat (filter (\<lambda>t. t \<noteq> []) xs) = concat xs"
  by (induction xs) auto

lemma zip_filter_nth:
  "length ts \<le> length cs \<Longrightarrow>
   map (\<lambda>i. f (ts ! i)) (filter (\<lambda>i. P (cs ! i)) [0..<length ts]) =
   map (\<lambda>(t, c). f t) (filter (\<lambda>(t, c). P c) (zip ts cs))"
proof -
  assume le: "length ts \<le> length cs"
  have z: "zip ts cs = map (\<lambda>i. (ts ! i, cs ! i)) [0..<length ts]"
    using le by (intro nth_equalityI) simp_all
  show ?thesis
    unfolding z by (simp add: filter_map o_def)
qed

text \<open>
  Claim C1. For a sampled frame with text block \<open>current\<close> and detector state \<open>st\<close>: an
  empty \<open>current\<close> is never new; a non-empty \<open>current\<close> after an empty
  \<open>last_text_block\<close> is new; when both are non-empty, \<open>current\<close> is new exactly when
  \<open>1 - levenshtein / max(len, len) < 0.9\<close>. When it is new, one telop entry with this
  frame's timestamp, image and text is appended and \<open>last_text_block\<close> becomes
  \<open>current\<close>; when it is not new, the state is unchanged. The body of the loop applies
  this decision to the text block of the frame's OCR result.
\<close>

theorem telop_novelty_decision:
  "(current = [] \<longrightarrow> \<not> is_new_subtitle current (last_text_block st)) \<and>
   (current \<noteq> [] \<and> last_text_block st = [] \<longrightarrow> is_new_subtitle current (last_text_block st)) \<and>
   (current \<noteq> [] \<and> last_text_block st \<noteq> [] \<longrightarrow>
      (is_new_subtitle current (last_text_block st) \<longleftrightarrow>
         1 - real (levenshtein current (last_text_block st))
               / real (max (length current) (length (last_text_block st))) < 0.9)) \<and>
   (is_new_subtitle current (last_text_block st) \<longrightarrow>
      detect ts img current st =
        st\<lparr>telop_screenshots := telop_screenshots st @
              [\<lparr>t_timestamp = ts, t_image_str = img, t_text = current\<rparr>],
           last_text_block := current\<rparr>) \<and>
   (\<not> is_new_subtitle current (last_text_block st) \<longrightarrow> detect ts img current st = st) \<and>
   (\<forall>st'. sample_frame ocr encode ts frame st = Inr st' \<longrightarrow>
      (\<exists>d c. ocr (roi frame) = Inr d \<and> current_text_block d = Inr c \<and>
             st' = detect ts (encode frame) c st))"
  by (cases current; cases "last_text_block st")
     (auto simp: is_new_subtitle_def novelty_path_def similarity_def detect_def Let_def
        sample_frame_def split: sum.splits)

theorem telop_novelty_decision_witness:
  "is_new_subtitle (py_str ''xy'') (py_str ''ab'') \<and>
   detect 3 [1] (py_str ''xy'') \<lparr>telop_screenshots = [], last_text_block = py_str ''ab''\<rparr> =
     \<lparr>telop_screenshots = [\<lparr>t_timestamp = 3, t_image_str = [1], t_text = py_str ''xy''\<rparr>],
      last_text_block = py_str ''xy''\<rparr> \<and>
   detect 3 [1] [] \<lparr>telop_screenshots = [], last_text_block = py_str ''ab''\<rparr> =
     \<lparr>telop_screenshots = [], last_text_block = py_str ''ab''\<rparr>"
proof -
  let ?st = "\<lparr>telop_screenshots = [], last_text_block = py_str ''ab''\<rparr>"
  have new: "is_new_subtitle (py_str ''xy'') (last_text_block ?st)"
    by (simp add: is_new_subtitle_def novelty_path_def similarity_def py_str_def)
  have emit: "detect 3 [1] (py_str ''xy'') ?st =
      ?st\<lparr>telop_screenshots := telop_screenshots ?st @
              [\<lparr>t_timestamp = 3, t_image_str = [1], t_text = py_str ''xy''\<rparr>],
           last_text_block := py_str ''xy''\<rparr>"
    using telop_novelty_decision [of "py_str ''xy''" ?st 3 "[1]" "\<lambda>f. Inl TesseractError"
        "\<lambda>f. []" "[]::nat frame"] new
    by blast
  have old: "\<not> is_new_subtitle [] (last_text_block ?st)"
    using telop_novelty_decision [of "[]" ?st 3 "[1]" "\<lambda>f. Inl TesseractError"
        "\<lambda>f. []" "[]::nat frame"]
    by blast
  have keep: "detect 3 [1] [] ?st = ?st"
    using telop_novelty_decision [of "[]" ?st 3 "[1]" "\<lambda>f. Inl TesseractError"
        "\<lambda>f. []" "[]::nat frame"] old
    by blast
  show ?thesis using new emit keep by simp
qed

text \<open>
  Claim C2, as the code has it. When every token has a confidence, the text block is the
  concatenation, in recognition order and with no separator, of the tokens whose
  confidence is strictly greater than 60, each with its leading and trailing white space
  stripped. A token with confidence at most 60 contributes nothing.
\<close>

theorem current_text_block_stripped:
  "length (ocr_text d) \<le> length (ocr_conf d) \<Longrightarrow>
   current_text_block d =
     Inr (concat (map (\<lambda>(t, c). strip t)
                    (filter (\<lambda>(t, c). c > 60) (zip (ocr_text d) (ocr_conf d)))))"
proof -
  assume le: "length (ocr_text d) \<le> length (ocr_conf d)"
  then have "\<forall>i\<in>set [0..<length (ocr_text d)]. i < length (ocr_conf d)" by auto
  then have "current_text_parts d =
     Inr (filter (\<lambda>t. t \<noteq> [])
            (map (\<lambda>i. strip (ocr_text d ! i))
               (filter (\<lambda>i. ocr_conf d ! i > 60) [0..<length (ocr_text d)])))"
    unfolding current_text_parts_def by (simp add: parts_loop_eq)
  then show ?thesis
    by (simp add: current_text_block_def concat_filter_nonempty zip_filter_nth [OF le])
qed

theorem current_text_block_stripped_witness:
  "length (ocr_text \<lparr>ocr_text = [[32, 97], py_str ''b'', py_str ''c''],
                    ocr_conf = [90, 60, 61]\<rparr>) \<le> 3 \<and>
   current_text_block \<lparr>ocr_text = [[32, 97], py_str ''b'', py_str ''c''],
                       ocr_conf = [90, 60, 61]\<rparr> = Inr (py_str ''ac'')"
  using current_text_block_stripped
    [of "\<lparr>ocr_text = [[32, 97], py_str ''b'', py_str ''c''], ocr_conf = [90, 60, 61]\<rparr>"]
  by (simp add: strip_def isspace_def py_str_def)

text \<open>
  The token \<open>" a"\<close> with confidence 90: the text block is \<open>"a"\<close>, not the token as
  recognised.
\<close>

theorem unstripped_concatenation_counterexample:
  "current_text_block \<lparr>ocr_text = [[32, 97]], ocr_conf = [90]\<rparr> \<noteq>
     Inr (concat (map fst (filter (\<lambda>(t, c). c > 60) (zip [[32, 97]] [90::int]))))"
  by (simp add: current_text_block_def current_text_parts_def strip_def isspace_def)

text \<open>
  Claim C10. The path on which the guard \<open>max_len > 0\<close> is false is never taken, and on
  the path that divides, both text blocks are non-empty and the divisor is
  \<open>max(len(current_text_block), len(last_text_block))\<close>, at least 1.
\<close>

theorem similarity_division_safe:
  "novelty_path current previous \<noteq> ZeroMaxLen \<and>
   (\<forall>d m. novelty_path current previous = Divide d m \<longrightarrow>
      current \<noteq> [] \<and> previous \<noteq> [] \<and> m = max (length current) (length previous) \<and> 1 \<le> m)"
  by (cases current; cases previous) (auto simp: novelty_path_def Let_def)

theorem similarity_division_safe_witness:
  "novelty_path [97, 98] [97] = Divide 1 2 \<and> novelty_path [97, 98] [97] \<noteq> ZeroMaxLen"
  using similarity_division_safe [of "[97, 98]" "[97]"]
  by (simp add: novelty_path_def)

section \<open>Properties of frame sampling\<close>

lemma ceil_pos: "0 < (fps::real) \<Longrightarrow> \<lceil>fps\<rceil> \<noteq> 0"
  using zero_less_ceiling [of fps] by linarith

lemma telop_loop_samples:
  "\<lceil>fps\<rceil> \<noteq> 0 \<Longrightarrow>
   (\<forall>i<length frames. progress (progress_value total_frames (n + i)) = Inr ()) \<Longrightarrow>
   telop_loop ocr encode fps total_frames frames n st =
     detect_samples ocr encode
       (map (\<lambda>i. (real (n + i) / fps, frames ! i))
          (filter (\<lambda>i. \<lceil>fps\<rceil> dvd int (n + i)) [0..<length frames])) st"
proof (induction frames arbitrary: n st)
  case Nil
  then show ?case by simp
next
  case (Cons frame rest)
  have upt: "[0..<length (frame # rest)] = 0 # map Suc [0..<length rest]"
    by (simp add: upt_conv_Cons map_Suc_upt del: upt_Suc)
  have p0: "progress (progress_value total_frames n) = Inr ()"
    using Cons.prems(2) by force
  have prest: "\<forall>i<length rest. progress (progress_value total_frames (Suc n + i)) = Inr ()"
  proof (intro allI impI)
    fix i assume "i < length rest"
    then have "Suc i < length (frame # rest)" by simp
    then have "progress (progress_value total_frames (n + Suc i)) = Inr ()"
      using Cons.prems(2) by blast
    then show "progress (progress_value total_frames (Suc n + i)) = Inr ()" by simp
  qed
  have ih: "telop_loop ocr encode fps total_frames rest (Suc n) s =
     detect_samples ocr encode
       (map (\<lambda>i. (real (Suc n + i) / fps, rest ! i))
          (filter (\<lambda>i. \<lceil>fps\<rceil> dvd int (Suc n + i)) [0..<length rest])) s" for s
    by (rule Cons.IH [OF Cons.prems(1) prest])
  have shift: "map (\<lambda>i. (real (n + i) / fps, (frame # rest) ! i))
          (filter (\<lambda>i. \<lceil>fps\<rceil> dvd int (n + i)) (map Suc [0..<length rest])) =
        map (\<lambda>i. (real (Suc n + i) / fps, rest ! i))
          (filter (\<lambda>i. \<lceil>fps\<rceil> dvd int (Suc n + i)) [0..<length rest])"
    by (simp add: filter_map o_def ac_simps)
  show ?case
  proof (cases "\<lceil>fps\<rceil> dvd int n")
    case True
    then have m: "int n mod \<lceil>fps\<rceil> = 0" by (simp add: dvd_eq_mod_eq_0)
    show ?thesis
      unfolding upt
      using Cons.prems(1) True m shift
      by (simp add: ih p0 del: upt_Suc split: sum.splits)
  next
    case False
    then have m: "int n mod \<lceil>fps\<rceil> \<noteq> 0" by (simp add: dvd_eq_mod_eq_0)
    show ?thesis
      unfolding upt
      using Cons.prems(1) False m shift
      by (simp add: ih del: upt_Suc)
  qed
qed

text \<open>
  When \<open>math.ceil(fps)\<close> is 0 (a frame rate in the interval from above -1 to 0), the
  first frame read raises at \<open>frame_count % math.ceil(fps)\<close>.
\<close>

lemma telop_loop_zero_rate:
  "\<lceil>fps\<rceil> = 0 \<Longrightarrow> frames \<noteq> [] \<Longrightarrow>
   telop_loop ocr encode fps total_frames frames n st = Inl ZeroDivisionError"
  by (cases frames) simp_all

text \<open>
  For a positive frame rate, and as long as every progress report is accepted, the loop
  started at frame 0 is telop detection run over exactly the frames whose index is a
  multiple of \<open>ceil(fps)\<close>, in order, each with the timestamp \<open>frame_index / fps\<close>.
\<close>

lemma frame_sampling_in_range:
  "0 < fps \<Longrightarrow>
   (\<forall>i<length frames. progress (progress_value total_frames i) = Inr ()) \<Longrightarrow>
   telop_loop ocr encode fps total_frames frames 0 st =
     detect_samples ocr encode (sampler_spec fps frames) st"
  using telop_loop_samples [of fps frames total_frames 0 ocr encode st] ceil_pos [of fps]
  by (simp add: sampler_spec_def)

text \<open>
  The progress report is accepted when the container reports no positive frame count,
  and when the frame index stays below 1.2 times the reported count.
\<close>

lemma progress_accepted:
  "total_frames \<le> 0 \<or> 5 * int i < 6 * total_frames \<Longrightarrow>
   progress (progress_value total_frames i) = Inr ()"
proof (cases "total_frames > 0")
  case False
  then show ?thesis by (simp add: progress_def progress_value_def)
next
  case True
  assume "total_frames \<le> 0 \<or> 5 * int i < 6 * total_frames"
  with True have lt: "5 * int i < 6 * total_frames" by simp
  define x where "x = real i / real_of_int total_frames"
  have tpos: "0 < real_of_int total_frames" using True by simp
  have "real_of_int (5 * int i) < real_of_int (6 * total_frames)"
    using lt by (rule of_int_less_iff [THEN iffD2])
  then have "real i * 5 < 6 * real_of_int total_frames" by simp
  then have "real i < (6 / 5) * real_of_int total_frames" by simp
  then have x1: "x < 6 / 5"
    unfolding x_def using tpos by (simp only: pos_divide_less_eq)
  have x0: "0 \<le> x" unfolding x_def using tpos by simp
  have q0: "0 \<le> 30 * x" using x0 by simp
  have q1: "30 * x < 36" using x1 by simp
  have f1: "\<lfloor>30 * x\<rfloor> < 36" using q1 by (simp only: floor_less_iff of_int_numeral)
  have f0: "0 \<le> \<lfloor>30 * x\<rfloor>" using q0 by (simp only: zero_le_floor)
  have "progress_value total_frames i = 65 + \<lfloor>30 * x\<rfloor>"
    using True q0 by (simp add: progress_value_def py_int_def x_def)
  then show ?thesis using f0 f1 by (simp add: progress_def)
qed

text \<open>
  Claim C8. The claim fails on the code where the container reports too few frames. At 1
  frame per second, with a reported frame count of 3 and five frames read, every frame
  is to be sampled; the loop samples frames 0 to 4, and after frame 4 the progress value
  is \<open>65 + int(30 * 4 / 3) = 105\<close>, which \<open>progress_bar.progress\<close> refuses: the loop is
  left by that exception, where detection over the five samples returns normally.
\<close>

theorem progress_overflow_aborts_sampling:
  "telop_loop (\<lambda>r. Inr \<lparr>ocr_text = [], ocr_conf = []\<rparr>) (\<lambda>f. [7]) 1 3
       [[[0::nat]], [[1]], [[2]], [[3]], [[4]]] 0 initial_detector =
     Inl StreamlitAPIException \<and>
   length (sampler_spec 1 [[[0::nat]], [[1]], [[2]], [[3]], [[4]]]) = 5 \<and>
   detect_samples (\<lambda>r. Inr \<lparr>ocr_text = [], ocr_conf = []\<rparr>) (\<lambda>f. [7])
       (sampler_spec 1 [[[0::nat]], [[1]], [[2]], [[3]], [[4]]]) initial_detector =
     Inr initial_detector"
proof (intro conjI)
  have sf: "sample_frame (\<lambda>r. Inr \<lparr>ocr_text = [], ocr_conf = []\<rparr>) (\<lambda>f. [7]) t f
      initial_detector = Inr initial_detector" for t :: real and f :: "nat frame"
    by (simp add: sample_frame_def current_text_block_def current_text_parts_def detect_def
        is_new_subtitle_def novelty_path_def initial_detector_def)
  show "telop_loop (\<lambda>r. Inr \<lparr>ocr_text = [], ocr_conf = []\<rparr>) (\<lambda>f. [7]) 1 3
       [[[0::nat]], [[1]], [[2]], [[3]], [[4]]] 0 initial_detector =
     Inl StreamlitAPIException"
    by (simp add: sf progress_def progress_value_def py_int_def)
  show "length (sampler_spec 1 [[[0::nat]], [[1]], [[2]], [[3]], [[4]]]) = 5"
    by (simp add: sampler_spec_def)
  show "detect_samples (\<lambda>r. Inr \<lparr>ocr_text = [], ocr_conf = []\<rparr>) (\<lambda>f. [7])
       (sampler_spec 1 [[[0::nat]], [[1]], [[2]], [[3]], [[4]]]) initial_detector =
     Inr initial_detector"
    by (simp add: sampler_spec_def sf)
qed

section \<open>Properties of event fusion\<close>

lemma group_event_alt:
  "group_event g e =
     AList.map_entry (time_key e) (add_to e)
       (if time_key e \<notin> fst ` set g then g @ [(time_key e, \<lparr>b_voice = [], b_telop = []\<rparr>)] else g)"
  by (cases e) (simp_all add: group_event_def time_key_def add_to_def [abs_def] Let_def)

lemma group_event_keys: "fst ` set (group_event g e) = insert (time_key e) (fst ` set g)"
  unfolding group_event_alt by (auto simp: AList.dom_map_entry)

lemma group_event_distinct:
  "distinct (map fst g) \<Longrightarrow> distinct (map fst (group_event g e))"
  unfolding group_event_alt by (auto intro!: AList.distinct_map_entry)

lemma group_event_lookup:
  "distinct (map fst g) \<Longrightarrow>
   map_of (group_event g e) k =
     (if k = time_key e
      then Some (add_to e (case map_of g k of None \<Rightarrow> \<lparr>b_voice = [], b_telop = []\<rparr> | Some b \<Rightarrow> b))
      else map_of g k)"
proof (cases "time_key e \<in> fst ` set g")
  case True
  then obtain b where b: "map_of g (time_key e) = Some b"
    by (metis map_of_eq_None_iff not_Some_eq)
  show ?thesis
    unfolding group_event_alt using True b
    by (simp add: AList.map_of_map_entry)
next
  case False
  then have n: "map_of g (time_key e) = None"
    by (simp add: map_of_eq_None_iff)
  show ?thesis
    unfolding group_event_alt using False n
    by (simp add: AList.map_of_map_entry map_add_def split: option.splits)
qed

lemma grouped_events_inv:
  "distinct (map fst (grouped_events events)) \<and>
   fst ` set (grouped_events events) = time_key ` set events \<and>
   (\<forall>k. map_of (grouped_events events) k =
          (if k \<in> time_key ` set events then Some (bucket_of events k) else None))"
proof (induction events rule: rev_induct)
  case Nil
  then show ?case by (simp add: grouped_events_def)
next
  case (snoc e events)
  let ?g = "grouped_events events"
  have step: "grouped_events (events @ [e]) = group_event ?g e"
    by (simp add: grouped_events_def)
  have d: "distinct (map fst ?g)" using snoc.IH by blast
  have keys: "fst ` set ?g = time_key ` set events" using snoc.IH by blast
  have look: "map_of ?g k = (if k \<in> time_key ` set events then Some (bucket_of events k) else None)" for k
    using snoc.IH by blast
  have "map_of (group_event ?g e) k =
          (if k \<in> time_key ` set (events @ [e]) then Some (bucket_of (events @ [e]) k) else None)" for k
    unfolding group_event_lookup [OF d] look
    by (auto simp: add_to_def bucket_of_def filter_empty_conv empty_filter_conv image_iff)
  then show ?case
    unfolding step using group_event_distinct [OF d] group_event_keys [of ?g e] keys
    by auto
qed

lemma grouped_events_distinct: "distinct (map fst (grouped_events events))"
  using grouped_events_inv [of events] by (rule conjunct1)

lemma grouped_events_lookup:
  "map_of (grouped_events events) k =
     (if k \<in> time_key ` set events then Some (bucket_of events k) else None)"
  using grouped_events_inv [of events, THEN conjunct2, THEN conjunct2] by (rule spec)

lemma grouped_events_mem:
  "(k, b) \<in> set (grouped_events events) \<longleftrightarrow> k \<in> time_key ` set events \<and> b = bucket_of events k"
proof -
  have "(k, b) \<in> set (grouped_events events) \<longleftrightarrow> map_of (grouped_events events) k = Some b"
    using grouped_events_distinct [of events] by simp
  also have "\<dots> \<longleftrightarrow> k \<in> time_key ` set events \<and> b = bucket_of events k"
    by (cases "k \<in> time_key ` set events") (auto simp: grouped_events_lookup)
  finally show ?thesis .
qed

lemma bucket_of_mem:
  "e \<in> set (b_voice (bucket_of events k)) \<union> set (b_telop (bucket_of events k)) \<longleftrightarrow>
   e \<in> set events \<and> time_key e = k"
  unfolding bucket_of_def by (simp only: bucket.simps set_filter) blast

lemma time_key_floor: "0 \<le> event_timestamp e \<Longrightarrow> time_key e = \<lfloor>event_timestamp e\<rfloor>"
  by (simp add: time_key_def py_int_def)

lemma all_events_nonneg:
  "\<forall>v\<in>set voice. 0 \<le> v_timestamp v \<Longrightarrow> \<forall>t\<in>set telops. 0 \<le> t_timestamp t \<Longrightarrow>
   e \<in> set (all_events voice telops) \<Longrightarrow> 0 \<le> event_timestamp e"
  by (auto simp: all_events_def voice_event_def telop_event_def)

lemma holds_event:
  "e \<in> set events \<Longrightarrow>
   (k, b) \<in> set (grouped_events events) \<and> e \<in> set (b_voice b) \<union> set (b_telop b) \<longleftrightarrow>
   k = time_key e \<and> b = bucket_of events (time_key e)"
proof -
  assume e: "e \<in> set events"
  show ?thesis
  proof
    assume l: "(k, b) \<in> set (grouped_events events) \<and> e \<in> set (b_voice b) \<union> set (b_telop b)"
    then have b: "b = bucket_of events k" by (simp add: grouped_events_mem)
    with l have "time_key e = k" using bucket_of_mem [of e events k] by simp
    with b show "k = time_key e \<and> b = bucket_of events (time_key e)" by simp
  next
    assume r: "k = time_key e \<and> b = bucket_of events (time_key e)"
    have "k \<in> time_key ` set events" using r e by simp
    moreover have "e \<in> set (b_voice b) \<union> set (b_telop b)"
      using r e bucket_of_mem [of e events "time_key e"] by simp
    ultimately show "(k, b) \<in> set (grouped_events events) \<and> e \<in> set (b_voice b) \<union> set (b_telop b)"
      using r by (simp add: grouped_events_mem)
  qed
qed

text \<open>
  Claim C3. For voice segments and telop events with non-negative timestamps, every
  event of the input lies in exactly one entry of \<open>grouped_events\<close>, and the key of any
  entry that holds it is the floor of the event's timestamp.
\<close>

theorem bucketing_exhaustive:
  assumes "\<forall>v\<in>set voice. 0 \<le> v_timestamp v" and "\<forall>t\<in>set telops. 0 \<le> t_timestamp t"
    and "e \<in> set (all_events voice telops)"
  shows "(\<exists>!kb. kb \<in> set (grouped_events (all_events voice telops)) \<and>
                e \<in> set (b_voice (snd kb)) \<union> set (b_telop (snd kb))) \<and>
         (\<forall>k b. (k, b) \<in> set (grouped_events (all_events voice telops)) \<and>
                e \<in> set (b_voice b) \<union> set (b_telop b) \<longrightarrow> k = \<lfloor>event_timestamp e\<rfloor>)"
proof (intro conjI allI impI)
  let ?evs = "all_events voice telops"
  note char = holds_event [OF assms(3)]
  show "\<exists>!kb. kb \<in> set (grouped_events ?evs) \<and>
                e \<in> set (b_voice (snd kb)) \<union> set (b_telop (snd kb))"
  proof (rule ex1I [of _ "(time_key e, bucket_of ?evs (time_key e))"])
    show "(time_key e, bucket_of ?evs (time_key e)) \<in> set (grouped_events ?evs) \<and>
        e \<in> set (b_voice (snd (time_key e, bucket_of ?evs (time_key e)))) \<union>
            set (b_telop (snd (time_key e, bucket_of ?evs (time_key e))))"
      using char [of "time_key e" "bucket_of ?evs (time_key e)"] by simp
  next
    fix kb
    assume a: "kb \<in> set (grouped_events ?evs) \<and>
        e \<in> set (b_voice (snd kb)) \<union> set (b_telop (snd kb))"
    obtain k b where kb: "kb = (k, b)" by (cases kb)
    from a have "k = time_key e \<and> b = bucket_of ?evs (time_key e)"
      unfolding kb using char [of k b] by simp
    then show "kb = (time_key e, bucket_of ?evs (time_key e))" by (simp add: kb)
  qed
next
  fix k b
  assume a: "(k, b) \<in> set (grouped_events (all_events voice telops)) \<and>
         e \<in> set (b_voice b) \<union> set (b_telop b)"
  have "k = time_key e" using a holds_event [OF assms(3), of k b] by simp
  also have "\<dots> = \<lfloor>event_timestamp e\<rfloor>"
    using all_events_nonneg [OF assms] by (rule time_key_floor)
  finally show "k = \<lfloor>event_timestamp e\<rfloor>" .
qed

text \<open>
  Claim C4. \<open>sorted_timestamps\<close>, the sequence of bucket keys in the order in which the
  buckets are rendered, is strictly ascending and has no duplicate.
\<close>

theorem buckets_strictly_ascending:
  "sorted_wrt (<) (sorted_timestamps (grouped_events (all_events voice telops))) \<and>
   distinct (sorted_timestamps (grouped_events (all_events voice telops)))"
  using grouped_events_distinct [of "all_events voice telops"]
  by (simp add: sorted_timestamps_def strict_sorted_iff)

lemma filter_all_events:
  "filter (\<lambda>e. is_voice e \<and> time_key e = k) (all_events voice telops) =
     map voice_event (filter (\<lambda>v. py_int (v_timestamp v) = k) voice)"
  "filter (\<lambda>e. \<not> is_voice e \<and> time_key e = k) (all_events voice telops) =
     map telop_event (filter (\<lambda>t. py_int (t_timestamp t) = k) telops)"
  by (simp_all add: all_events_def filter_map o_def voice_event_def telop_event_def time_key_def)

lemma scenario_d:
  "grouped_events (all_events [\<lparr>v_timestamp = 12.3, v_text = py_str ''hi''\<rparr>]
       [\<lparr>t_timestamp = 12.9, t_image_str = [1], t_text = py_str ''HI''\<rparr>]) =
     [(12, \<lparr>b_voice = [Voice 12.3 (py_str ''hi'')],
            b_telop = [Telop 12.9 [1] (py_str ''HI'')]\<rparr>)]"
proof -
  have k1: "py_int 12.3 = 12" by (simp add: py_int_def)
  have k2: "py_int 12.9 = 12" by (simp add: py_int_def)
  show ?thesis
    by (simp add: grouped_events_def all_events_def voice_event_def telop_event_def
        group_event_def k1 k2 Let_def)
qed

theorem bucketing_exhaustive_witness:
  "Voice 12.3 (py_str ''hi'') \<in>
     set (all_events [\<lparr>v_timestamp = 12.3, v_text = py_str ''hi''\<rparr>]
            [\<lparr>t_timestamp = 12.9, t_image_str = [1], t_text = py_str ''HI''\<rparr>]) \<and>
   (\<exists>!kb. kb \<in> set (grouped_events
                (all_events [\<lparr>v_timestamp = 12.3, v_text = py_str ''hi''\<rparr>]
                   [\<lparr>t_timestamp = 12.9, t_image_str = [1], t_text = py_str ''HI''\<rparr>])) \<and>
           Voice 12.3 (py_str ''hi'') \<in> set (b_voice (snd kb)) \<union> set (b_telop (snd kb))) \<and>
   (12, \<lparr>b_voice = [Voice 12.3 (py_str ''hi'')],
         b_telop = [Telop 12.9 [1] (py_str ''HI'')]\<rparr>) \<in>
     set (grouped_events
            (all_events [\<lparr>v_timestamp = 12.3, v_text = py_str ''hi''\<rparr>]
               [\<lparr>t_timestamp = 12.9, t_image_str = [1], t_text = py_str ''HI''\<rparr>])) \<and>
   (12::int) = \<lfloor>event_timestamp (Voice 12.3 (py_str ''hi''))\<rfloor>"
  (is "?H3 \<and> ?U \<and> ?M \<and> ?K")
proof -
  have h1: "\<forall>v\<in>set [\<lparr>v_timestamp = 12.3, v_text = py_str ''hi''\<rparr>]. 0 \<le> v_timestamp v"
    by simp
  have h2: "\<forall>t\<in>set [\<lparr>t_timestamp = 12.9, t_image_str = [1], t_text = py_str ''HI''\<rparr>].
      0 \<le> t_timestamp t"
    by simp
  have h3: ?H3 by (simp add: all_events_def voice_event_def)
  note t = bucketing_exhaustive [OF h1 h2 h3]
  have u: ?U by (rule t [THEN conjunct1])
  have m: ?M by (subst scenario_d) simp
  have k: ?K
    using m
    by (intro t [THEN conjunct2, rule_format,
          of 12 "\<lparr>b_voice = [Voice 12.3 (py_str ''hi'')],
                  b_telop = [Telop 12.9 [1] (py_str ''HI'')]\<rparr>"]) simp
  show ?thesis by (intro conjI h3 u m k)
qed

text \<open>
  Claim C5. In every bucket, the voice list is the voice data whose key is the bucket's
  key, in transcript order, and the telop list is the telop entries whose key is the
  bucket's key, in detection order; neither list holds an event of the other stream. A
  voice segment at 12.3 and a telop event at 12.9 give the single bucket 12, with the
  voice event in its voice list and the telop event in its telop list.
\<close>

theorem stream_order_preserved:
  "(\<forall>k b. (k, b) \<in> set (grouped_events (all_events voice telops)) \<longrightarrow>
      b_voice b = map voice_event (filter (\<lambda>v. py_int (v_timestamp v) = k) voice) \<and>
      b_telop b = map telop_event (filter (\<lambda>t. py_int (t_timestamp t) = k) telops)) \<and>
   grouped_events (all_events [\<lparr>v_timestamp = 12.3, v_text = py_str ''hi''\<rparr>]
       [\<lparr>t_timestamp = 12.9, t_image_str = [1], t_text = py_str ''HI''\<rparr>]) =
     [(12, \<lparr>b_voice = [Voice 12.3 (py_str ''hi'')],
            b_telop = [Telop 12.9 [1] (py_str ''HI'')]\<rparr>)]"
proof (intro conjI allI impI)
  fix k b
  assume "(k, b) \<in> set (grouped_events (all_events voice telops))"
  then have b: "b = bucket_of (all_events voice telops) k" by (simp add: grouped_events_mem)
  show "b_voice b = map voice_event (filter (\<lambda>v. py_int (v_timestamp v) = k) voice)"
    unfolding b by (simp add: bucket_of_def filter_all_events)
  show "b_telop b = map telop_event (filter (\<lambda>t. py_int (t_timestamp t) = k) telops)"
    unfolding b by (simp add: bucket_of_def filter_all_events)
next
  show "grouped_events (all_events [\<lparr>v_timestamp = 12.3, v_text = py_str ''hi''\<rparr>]
       [\<lparr>t_timestamp = 12.9, t_image_str = [1], t_text = py_str ''HI''\<rparr>]) =
     [(12, \<lparr>b_voice = [Voice 12.3 (py_str ''hi'')],
            b_telop = [Telop 12.9 [1] (py_str ''HI'')]\<rparr>)]"
    by (rule scenario_d)
qed

theorem stream_order_preserved_witness:
  "(12, \<lparr>b_voice = [Voice 12.3 (py_str ''hi'')], b_telop = [Telop 12.9 [1] (py_str ''HI'')]\<rparr>)
     \<in> set (grouped_events (all_events [\<lparr>v_timestamp = 12.3, v_text = py_str ''hi''\<rparr>]
            [\<lparr>t_timestamp = 12.9, t_image_str = [1], t_text = py_str ''HI''\<rparr>])) \<and>
   [Voice 12.3 (py_str ''hi'')] =
     map voice_event (filter (\<lambda>v. py_int (v_timestamp v) = 12)
       [\<lparr>v_timestamp = 12.3, v_text = py_str ''hi''\<rparr>]) \<and>
   [Telop 12.9 [1] (py_str ''HI'')] =
     map telop_event (filter (\<lambda>t. py_int (t_timestamp t) = 12)
       [\<lparr>t_timestamp = 12.9, t_image_str = [1], t_text = py_str ''HI''\<rparr>])"
  (is "?M \<and> ?V \<and> ?T")
proof -
  note t = stream_order_preserved [of "[\<lparr>v_timestamp = 12.3, v_text = py_str ''hi''\<rparr>]"
      "[\<lparr>t_timestamp = 12.9, t_image_str = [1], t_text = py_str ''HI''\<rparr>]"]
  have m: ?M using t [THEN conjunct2] by simp
  have "b_voice \<lparr>b_voice = [Voice 12.3 (py_str ''hi'')],
                 b_telop = [Telop 12.9 [1] (py_str ''HI'')]\<rparr> =
     map voice_event (filter (\<lambda>v. py_int (v_timestamp v) = 12)
       [\<lparr>v_timestamp = 12.3, v_text = py_str ''hi''\<rparr>]) \<and>
        b_telop \<lparr>b_voice = [Voice 12.3 (py_str ''hi'')],
                 b_telop = [Telop 12.9 [1] (py_str ''HI'')]\<rparr> =
     map telop_event (filter (\<lambda>t. py_int (t_timestamp t) = 12)
       [\<lparr>t_timestamp = 12.9, t_image_str = [1], t_text = py_str ''HI''\<rparr>])"
    using t [THEN conjunct1, rule_format, OF m] .
  then have ?V and ?T by (simp_all only: bucket.simps)
  with m show ?thesis by (intro conjI)
qed

section \<open>Properties of rendering\<close>

lemma first_str_split: "first (str_split sep s) = Inr (takeWhile (\<lambda>c. c \<noteq> sep) s)"
  by (induction s) (auto simp: first_def split: list.splits)

lemma takeWhile_cases:
  "takeWhile P xs = xs \<or> (\<exists>x rest. xs = takeWhile P xs @ x # rest \<and> \<not> P x)"
  by (induction xs) auto

text \<open>
  Claim C9. The rendered link is the base URL followed by \<open>&t=\<close>, the bucket key in
  decimal and \<open>s\<close>, where the base URL is the original URL with everything from the
  first ampersand onward removed: it holds no ampersand, and it is the whole URL or the
  part of the URL before an ampersand.
\<close>

theorem jump_url_format:
  "jump_url url k = Inr (base_url_spec url @ py_str ''&t='' @ str_int k @ py_str ''s'') \<and>
   38 \<notin> set (base_url_spec url) \<and>
   (base_url_spec url = url \<or> (\<exists>rest. url = base_url_spec url @ 38 # rest))"
proof (intro conjI)
  show "jump_url url k = Inr (base_url_spec url @ py_str ''&t='' @ str_int k @ py_str ''s'')"
    by (simp add: jump_url_def first_str_split base_url_spec_def)
  show "38 \<notin> set (base_url_spec url)"
    unfolding base_url_spec_def by (auto dest: set_takeWhileD)
  show "base_url_spec url = url \<or> (\<exists>rest. url = base_url_spec url @ 38 # rest)"
    unfolding base_url_spec_def using takeWhile_cases [of "\<lambda>c. c \<noteq> 38" url] by auto
qed

lemma jump_url_example:
  "jump_url (py_str ''https://youtu.be/abc?v=1&list=PL2'') 75 =
     Inr (py_str ''https://youtu.be/abc?v=1&t=75s'')"
  by (simp add: jump_url_def first_def py_str_def str_int_def digits.simps)

section \<open>Properties of the pipeline\<close>

text \<open>
  Claim C7. When the download has returned the path of the media file, that path does
  not exist after the run, whatever transcription, decoding and telop detection did:
  returned a result or raised.
\<close>

theorem cleanup_after_download:
  "download c url files = (Inr p, files1) \<Longrightarrow>
   \<not> path_exists (snd (process_video c url files)) p"
  by (auto simp: process_video_def try_body_def finally_clause_def path_exists_def
      split: sum.splits prod.splits)

theorem cleanup_after_download_witness:
  "download \<lparr>download = \<lambda>u fs. (Inr (py_str ''temp_video.mp4''),
                               insert (py_str ''temp_video.mp4'') fs),
             transcribe = \<lambda>p. Inl TranscriptionError,
             video_capture = \<lambda>p. (30, 0, []::nat frame list),
             image_to_data = \<lambda>f. Inl TesseractError,
             imencode = \<lambda>f. []\<rparr> (py_str ''u'') {} =
     (Inr (py_str ''temp_video.mp4''), {py_str ''temp_video.mp4''}) \<and>
   \<not> path_exists
       (snd (process_video
          \<lparr>download = \<lambda>u fs. (Inr (py_str ''temp_video.mp4''),
                               insert (py_str ''temp_video.mp4'') fs),
           transcribe = \<lambda>p. Inl TranscriptionError,
           video_capture = \<lambda>p. (30, 0, []::nat frame list),
           image_to_data = \<lambda>f. Inl TesseractError,
           imencode = \<lambda>f. []\<rparr> (py_str ''u'') {}))
       (py_str ''temp_video.mp4'')"
  (is "?D \<and> ?C")
proof -
  have d: ?D by simp
  show ?thesis using d cleanup_after_download [OF d] by (intro conjI)
qed

lemma telop_loop_ocr_failure:
  "i < length frames \<Longrightarrow> int (n + i) mod \<lceil>fps\<rceil> = 0 \<Longrightarrow> ocr (roi (frames ! i)) = Inl e \<Longrightarrow>
   \<exists>e'. telop_loop ocr encode fps total_frames frames n st = Inl e'"
proof (induction frames arbitrary: i n st)
  case Nil
  then show ?case by simp
next
  case (Cons frame rest)
  show ?case
  proof (cases i)
    case 0
    then have "sample_frame ocr encode (real n / fps) frame st = Inl e"
      using Cons.prems by (simp add: sample_frame_def)
    then show ?thesis using Cons.prems 0 by simp
  next
    case (Suc j)
    then have j: "j < length rest" "int (Suc n + j) mod \<lceil>fps\<rceil> = 0" "ocr (roi (rest ! j)) = Inl e"
      using Cons.prems by simp_all
    have ih: "\<exists>e'. telop_loop ocr encode fps total_frames rest (Suc n) s = Inl e'" for s
      by (rule Cons.IH [OF j])
    show ?thesis
      using ih by (simp split: sum.splits)
  qed
qed

text \<open>
  Claim C6, as the code has it. An exception of the OCR engine on a sampled frame is not
  caught: when the engine raises on a sampled frame, \<open>process_video\<close> raises and returns
  no result; the \<open>finally\<close> clause still removes the media file.
\<close>

theorem ocr_failure_fatal:
  "download c url files = (Inr p, files1) \<Longrightarrow> transcribe c p = Inr segments \<Longrightarrow>
   video_capture c p = (fps, frame_count_prop, frames) \<Longrightarrow>
   i < length frames \<Longrightarrow> int i mod \<lceil>fps\<rceil> = 0 \<Longrightarrow>
   image_to_data c (roi (frames ! i)) = Inl e \<Longrightarrow>
   (\<exists>e'. fst (process_video c url files) = Inl e') \<and>
   \<not> path_exists (snd (process_video c url files)) p"
proof -
  assume a: "download c url files = (Inr p, files1)" "transcribe c p = Inr segments"
    "video_capture c p = (fps, frame_count_prop, frames)"
    and f: "i < length frames" "int i mod \<lceil>fps\<rceil> = 0" "image_to_data c (roi (frames ! i)) = Inl e"
  obtain e' where "telop_loop (image_to_data c) (imencode c) fps (py_int frame_count_prop)
      frames 0 initial_detector = Inl e'"
    using telop_loop_ocr_failure [where i = i and frames = frames and n = 0 and fps = fps
        and ocr = "image_to_data c" and e = e and total_frames = "py_int frame_count_prop"
        and encode = "imencode c" and st = initial_detector] f
    by auto
  then have "fst (process_video c url files) = Inl e'"
    using a by (simp add: process_video_def try_body_def)
  moreover have "\<not> path_exists (snd (process_video c url files)) p"
    using a(1) by (auto simp: process_video_def try_body_def finally_clause_def path_exists_def
      split: sum.splits prod.splits)
  ultimately show ?thesis by blast
qed

text \<open>
  Two frames at 1 frame per second; the engine raises on the first and reads \<open>A\<close> on the
  second. The run raises the engine's exception; it does not go on to the second frame
  and return its telop.
\<close>

theorem ocr_failure_aborts_counterexample:
  "fst (process_video failing_ocr_run (py_str ''u'') {}) = Inl TesseractError \<and>
   fst (process_video failing_ocr_run (py_str ''u'') {}) \<noteq>
     Inr ([], [\<lparr>t_timestamp = 1, t_image_str = [7], t_text = py_str ''A''\<rparr>])"
  by (simp add: process_video_def try_body_def failing_ocr_run_def sample_frame_def roi_def)

theorem ocr_failure_fatal_witness:
  "(\<exists>e'. fst (process_video failing_ocr_run (py_str ''u'') {}) = Inl e') \<and>
   \<not> path_exists (snd (process_video failing_ocr_run (py_str ''u'') {}))
       (py_str ''temp_video.mp4'')"
proof -
  have d: "download failing_ocr_run (py_str ''u'') {} =
      (Inr (py_str ''temp_video.mp4''), {py_str ''temp_video.mp4''})"
    by (simp add: failing_ocr_run_def)
  have t: "transcribe failing_ocr_run (py_str ''temp_video.mp4'') = Inr []"
    by (simp add: failing_ocr_run_def)
  have v: "video_capture failing_ocr_run (py_str ''temp_video.mp4'') = (1, 2, [[[0]], [[1]]])"
    by (simp add: failing_ocr_run_def)
  have i: "(0::nat) < length [[[0::nat]], [[1]]]" by simp
  have m: "int 0 mod \<lceil>1::real\<rceil> = 0" by simp
  have o: "image_to_data failing_ocr_run (roi ([[[0::nat]], [[1]]] ! 0)) = Inl TesseractError"
    by (simp add: failing_ocr_run_def roi_def)
  show ?thesis by (rule ocr_failure_fatal [OF d t v i m o])
qed

end
